theory Spec2Isabelle
  imports Main "HOL-Library.Word" "HOL-Library.AList"
begin

unbundle bit_operations_syntax

section \<open>The layer-2 announcer (internal/layer2/announcer.go)\<close>

subsection \<open>IP addresses\<close>

text \<open>
  Go's \<^verbatim>\<open>net.IP\<close> is a byte slice (\<^verbatim>\<open>type IP []byte\<close>). An IPv4 address has 4 bytes or
  is the 16-byte IPv4-mapped form; an IPv6 address has 16 bytes. A nil and an empty slice
  both have length 0 and are the empty list here. The methods the announcer calls
  (\<^verbatim>\<open>To4\<close>, \<^verbatim>\<open>Equal\<close>, \<^verbatim>\<open>IsLinkLocalUnicast\<close>, \<^verbatim>\<open>String\<close>) belong to Go's standard
  library; they are written out below after its documented behaviour.
\<close>

type_synonym byte = "8 word"
type_synonym IP = "byte list"

definition v4InV6Prefix :: "byte list" where
  "v4InV6Prefix = [0, 0, 0, 0, 0, 0, 0, 0, 0, 0, 0xff, 0xff]"

text \<open>\<^verbatim>\<open>ip.To4()\<close>: the 4-byte form of an IPv4 address, \<open>None\<close> for Go's nil.\<close>

definition IP_To4 :: "IP \<Rightarrow> IP option" where
  "IP_To4 ip =
     (if length ip = 4 then Some ip
      else if length ip = 16 \<and> take 12 ip = v4InV6Prefix then Some (drop 12 ip)
      else None)"

text \<open>\<^verbatim>\<open>ip.Equal(x)\<close>: an IPv4 address and the same address in IPv6 form are equal.\<close>

definition IP_Equal :: "IP \<Rightarrow> IP \<Rightarrow> bool" where
  "IP_Equal ip x =
     (if length ip = length x then ip = x
      else if length ip = 4 \<and> length x = 16 then take 12 x = v4InV6Prefix \<and> ip = drop 12 x
      else if length ip = 16 \<and> length x = 4 then take 12 ip = v4InV6Prefix \<and> drop 12 ip = x
      else False)"

text \<open>\<^verbatim>\<open>ip.IsLinkLocalUnicast()\<close>: 169.254.0.0/16 or fe80::/10.\<close>

definition IP_IsLinkLocalUnicast :: "IP \<Rightarrow> bool" where
  "IP_IsLinkLocalUnicast ip =
     (case IP_To4 ip of
        Some ip4 \<Rightarrow> ip4 ! 0 = 169 \<and> ip4 ! 1 = 254
      | None \<Rightarrow> length ip = 16 \<and> ip ! 0 = 0xfe \<and> (ip ! 1) AND 0xc0 = 0x80)"

text \<open>
  \<^verbatim>\<open>ip.String()\<close>: \<^verbatim>\<open><nil>\<close> for length 0, dotted decimal for an IPv4 or IPv4-mapped
  address, the RFC 5952 text for any other 16-byte address (lower-case hexadecimal fields
  without leading zeros, the leftmost longest run of at least two zero fields written
  \<^verbatim>\<open>::\<close>), and \<^verbatim>\<open>?\<close> followed by the bytes in hexadecimal for any other length.
\<close>

definition hexDigit :: "nat \<Rightarrow> char" where
  "hexDigit n = ''0123456789abcdef'' ! n"

definition decByte :: "byte \<Rightarrow> string" where
  "decByte b =
     (let n = unat b in
        (if 100 \<le> n then [hexDigit (n div 100)] else []) @
        (if 10 \<le> n then [hexDigit ((n div 10) mod 10)] else []) @
        [hexDigit (n mod 10)])"

definition hexByte :: "byte \<Rightarrow> string" where
  "hexByte b = (let n = unat b in [hexDigit (n div 16), hexDigit (n mod 16)])"

definition hexField :: "nat \<Rightarrow> string" where
  "hexField n =
     (if 4096 \<le> n then [hexDigit (n div 4096)] else []) @
     (if 256 \<le> n then [hexDigit ((n div 256) mod 16)] else []) @
     (if 16 \<le> n then [hexDigit ((n div 16) mod 16)] else []) @
     [hexDigit (n mod 16)]"

fun joinWith :: "string \<Rightarrow> string list \<Rightarrow> string" where
  "joinWith sep [] = []"
| "joinWith sep [s] = s"
| "joinWith sep (s # t # ss) = s @ sep @ joinWith sep (t # ss)"

fun fields16 :: "byte list \<Rightarrow> nat list" where
  "fields16 (hi # lo # bs) = (unat hi * 256 + unat lo) # fields16 bs"
| "fields16 bs = []"

fun zeroRun :: "nat list \<Rightarrow> nat" where
  "zeroRun [] = 0"
| "zeroRun (f # fs) = (if f = 0 then Suc (zeroRun fs) else 0)"

text \<open>The scan for the longest zero run: position and length of the best run so far.\<close>

fun longestZeroRun :: "nat list \<Rightarrow> nat \<Rightarrow> nat \<times> nat \<Rightarrow> nat \<times> nat" where
  "longestZeroRun [] i best = best"
| "longestZeroRun (f # fs) i best =
     (let l = zeroRun (f # fs)
      in longestZeroRun fs (Suc i) (if 2 \<le> l \<and> snd best < l then (i, l) else best))"

definition string6 :: "byte list \<Rightarrow> string" where
  "string6 ip =
     (let fs = fields16 ip; best = longestZeroRun fs 0 (0, 0)
      in if snd best = 0 then joinWith '':'' (map hexField fs)
         else joinWith '':'' (map hexField (take (fst best) fs)) @ ''::'' @
              joinWith '':'' (map hexField (drop (fst best + snd best) fs)))"

definition IP_String :: "IP \<Rightarrow> string" where
  "IP_String ip =
     (if length ip = 0 then ''<nil>''
      else if length ip \<noteq> 4 \<and> length ip \<noteq> 16 then ''?'' @ concat (map hexByte ip)
      else (case IP_To4 ip of
              Some p4 \<Rightarrow> joinWith ''.'' (map decByte p4)
            | None \<Rightarrow> string6 ip))"

subsection \<open>The announcer's state\<close>

text \<open>
  Modelled from the spec: the ARP and NDP responders (\<^verbatim>\<open>arpResponder\<close>, \<^verbatim>\<open>ndpResponder\<close>)
  are defined in files that are not part of the sources at hand. The announcer only calls
  their methods \<^verbatim>\<open>Watch\<close>, \<^verbatim>\<open>Unwatch\<close>, \<^verbatim>\<open>Gratuitous\<close> and \<^verbatim>\<open>Close\<close>; any error they
  return is logged and changes nothing else. A responder is therefore represented by the
  sequence of calls the announcer has made on it, oldest first, and a freshly created
  responder by the empty sequence.
\<close>

datatype call = Watch IP | Unwatch IP | Gratuitous IP

type_synonym responder = "call list"

text \<open>
  The struct \<^verbatim>\<open>Announce\<close>. Each Go map is an association list with distinct keys, since
  the code ranges over all of them but \<^verbatim>\<open>ipRefcnt\<close>, which is kept in the same form so
  that a state is plain data. \<^verbatim>\<open>spamCh\<close> is the buffered channel, oldest element first; a
  send on a full channel waits for the spam loop to receive, and the capacity is left out.
  The reference counts are Go \<^verbatim>\<open>int\<close>s, which have 64 bits on a 64-bit platform:
  they are 64-bit words, \<open>+\<close> and \<open>-\<close> wrap around as Go's \<^verbatim>\<open>++\<close> and \<^verbatim>\<open>--\<close> do, and the
  comparisons of the code are the signed ones, \<open>\<le>s\<close> and \<open><s\<close>.
\<close>

record Announce =
  arps :: "(int \<times> responder) list"
  ndps :: "(int \<times> responder) list"
  ips :: "(string \<times> IP list) list"
  ipRefcnt :: "(string \<times> 64 word) list"
  spamCh :: "IP list"

definition New :: Announce where
  "New = \<lparr>arps = [], ndps = [], ips = [], ipRefcnt = [], spamCh = []\<rparr>"

text \<open>Reading \<^verbatim>\<open>a.ipRefcnt[k]\<close>: a missing key reads as 0.\<close>

definition refcnt :: "Announce \<Rightarrow> string \<Rightarrow> 64 word" where
  "refcnt a k = (case map_of (ipRefcnt a) k of None \<Rightarrow> 0 | Some n \<Rightarrow> n)"

text \<open>Reading \<^verbatim>\<open>a.ips[name]\<close>: a missing key reads as the nil slice.\<close>

definition ipsOf :: "Announce \<Rightarrow> string \<Rightarrow> IP list" where
  "ipsOf a name = (case map_of (ips a) name of None \<Rightarrow> [] | Some l \<Rightarrow> l)"

text \<open>\<^verbatim>\<open>for _, client := range responders { client.<method>(ip) }\<close>\<close>

definition callAll :: "call \<Rightarrow> (int \<times> responder) list \<Rightarrow> (int \<times> responder) list" where
  "callAll c rs = map (\<lambda>(i, r). (i, r @ [c])) rs"

subsection \<open>gratuitous and shouldAnnounce\<close>

definition gratuitous :: "IP \<Rightarrow> Announce \<Rightarrow> Announce" where
  "gratuitous ip a =
     (if refcnt a (IP_String ip) \<le>s 0 then a
      else if IP_To4 ip \<noteq> None then a\<lparr>arps := callAll (Gratuitous ip) (arps a)\<rparr>
      else a\<lparr>ndps := callAll (Gratuitous ip) (ndps a)\<rparr>)"

datatype dropReason =
    dropReasonNone
  | dropReasonClosed
  | dropReasonError
  | dropReasonARPReply
  | dropReasonMessageType
  | dropReasonNoSourceLL
  | dropReasonEthernetDestination
  | dropReasonAnnounceIP

definition shouldAnnounce :: "IP \<Rightarrow> Announce \<Rightarrow> dropReason" where
  "shouldAnnounce ip a =
     (if list_ex (\<lambda>(name, l). list_ex (\<lambda>i. IP_Equal i ip) l) (ips a)
      then dropReasonNone else dropReasonAnnounceIP)"

subsection \<open>SetBalancer, DeleteBalancer, AnnounceName\<close>

text \<open>
  \<^verbatim>\<open>SetBalancer\<close> first ranges over \<^verbatim>\<open>a.ips[name]\<close> comparing each element with itself
  and continuing; that loop changes nothing and has no counterpart here. The deferred
  \<^verbatim>\<open>doSpam\<close> runs last, after the lock is released: it sends \<^verbatim>\<open>ip\<close> on \<^verbatim>\<open>spamCh\<close>.
\<close>

definition doSpam :: "IP \<Rightarrow> Announce \<Rightarrow> Announce" where
  "doSpam ip a = a\<lparr>spamCh := spamCh a @ [ip]\<rparr>"

definition SetBalancer :: "string \<Rightarrow> IP \<Rightarrow> Announce \<Rightarrow> Announce" where
  "SetBalancer name ip a =
     (let a1 = a\<lparr>ips := AList.update name (ipsOf a name @ [ip]) (ips a)\<rparr>;
          a2 = a1\<lparr>ipRefcnt :=
                 AList.update (IP_String ip) (refcnt a1 (IP_String ip) + 1) (ipRefcnt a1)\<rparr>
      in doSpam ip
           (if 1 <s refcnt a2 (IP_String ip) then a2
            else a2\<lparr>ndps := callAll (Watch ip) (ndps a2)\<rparr>))"

text \<open>The loop of \<^verbatim>\<open>DeleteBalancer\<close> over the IPs that were stored under the name.\<close>

fun DeleteBalancer_loop :: "IP list \<Rightarrow> Announce \<Rightarrow> Announce" where
  "DeleteBalancer_loop [] a = a"
| "DeleteBalancer_loop (ip # rest) a =
     (let a1 = a\<lparr>ipRefcnt :=
                 AList.update (IP_String ip) (refcnt a (IP_String ip) - 1) (ipRefcnt a)\<rparr>
      in if 0 <s refcnt a1 (IP_String ip) then a1
         else DeleteBalancer_loop rest (a1\<lparr>ndps := callAll (Unwatch ip) (ndps a1)\<rparr>))"

definition DeleteBalancer :: "string \<Rightarrow> Announce \<Rightarrow> Announce" where
  "DeleteBalancer name a =
     (case map_of (ips a) name of
        None \<Rightarrow> a
      | Some l \<Rightarrow> DeleteBalancer_loop l (a\<lparr>ips := AList.delete name (ips a)\<rparr>))"

definition AnnounceName :: "string \<Rightarrow> Announce \<Rightarrow> bool" where
  "AnnounceName name a = (map_of (ips a) name \<noteq> None)"

subsection \<open>The interface tracker\<close>

text \<open>
  What \<^verbatim>\<open>updateInterfaces\<close> reads from the operating system is its input here: for
  each interface the index, name and flags, the result of \<^verbatim>\<open>ifi.Addrs()\<close>, whether
  \<^verbatim>\<open>os.Stat\<close> of the \<^verbatim>\<open>master\<close> entry reports that it does not exist, the result of
  reading the \<^verbatim>\<open>flags\<close> file, and whether creating a responder on it succeeds.
\<close>

datatype Addr = IPNet IP | OtherAddr

text \<open>
  The \<^verbatim>\<open>flags\<close> file: unreadable, readable but empty (dropping its last byte then panics),
  or the number \<^verbatim>\<open>strconv.ParseUint\<close> yields for the content without its last byte.
\<close>

datatype flagsFile = ReadError | EmptyFile | FlagsValue nat

record Interface =
  Index :: int
  Name :: string
  FlagUp :: bool
  FlagBroadcast :: bool
  Addrs :: "Addr list option"
  masterNotExist :: bool
  sysFlags :: flagsFile
  newARPResponder :: bool
  newNDPResponder :: bool

datatype error = Panic

definition noARP :: "flagsFile \<Rightarrow> bool" where
  "noARP f = (case f of FlagsValue n \<Rightarrow> bit n 7 | _ \<Rightarrow> False)"

text \<open>The loop over the addresses of one interface; \<^verbatim>\<open>keepARP\<close> and \<^verbatim>\<open>keepNDP\<close> are
  Go maps to bool, where a missing key reads as false.\<close>

fun scanAddrs ::
  "Interface \<Rightarrow> Addr list \<Rightarrow> (int \<Rightarrow> bool) \<times> (int \<Rightarrow> bool) \<Rightarrow> (int \<Rightarrow> bool) \<times> (int \<Rightarrow> bool)"
where
  "scanAddrs ifi [] keep = keep"
| "scanAddrs ifi (OtherAddr # rest) keep = scanAddrs ifi rest keep"
| "scanAddrs ifi (IPNet ip # rest) (keepARP, keepNDP) =
     scanAddrs ifi rest
       (if IP_To4 ip \<noteq> None \<and> FlagBroadcast ifi then keepARP(Index ifi := True) else keepARP,
        if IP_IsLinkLocalUnicast ip then keepNDP(Index ifi := True) else keepNDP)"

text \<open>Creating the missing responder of an interface; \<open>None\<close> when the constructor
  fails, on which \<^verbatim>\<open>updateInterfaces\<close> returns.\<close>

definition createARP :: "Interface \<Rightarrow> (int \<Rightarrow> bool) \<Rightarrow> Announce \<Rightarrow> Announce option" where
  "createARP ifi keepARP a =
     (if keepARP (Index ifi) \<and> map_of (arps a) (Index ifi) = None
      then (if newARPResponder ifi
            then Some (a\<lparr>arps := AList.update (Index ifi) [] (arps a)\<rparr>) else None)
      else Some a)"

definition createNDP :: "Interface \<Rightarrow> (int \<Rightarrow> bool) \<Rightarrow> Announce \<Rightarrow> Announce option" where
  "createNDP ifi keepNDP a =
     (if keepNDP (Index ifi) \<and> map_of (ndps a) (Index ifi) = None
      then (if newNDPResponder ifi
            then Some (a\<lparr>ndps := AList.update (Index ifi) [] (ndps a)\<rparr>) else None)
      else Some a)"

text \<open>The two closing loops: every responder whose interface is not kept is closed and
  deleted.\<close>

definition closeStale :: "(int \<Rightarrow> bool) \<Rightarrow> (int \<Rightarrow> bool) \<Rightarrow> Announce \<Rightarrow> Announce" where
  "closeStale keepARP keepNDP a =
     a\<lparr>arps := filter (\<lambda>(i, client). keepARP i) (arps a),
       ndps := filter (\<lambda>(i, client). keepNDP i) (ndps a)\<rparr>"

text \<open>The loop over the interfaces. A \<^verbatim>\<open>return\<close> inside it leaves the function with
  the state as changed so far, without the closing loops.\<close>

fun updateInterfaces_loop ::
  "Interface list \<Rightarrow> (int \<Rightarrow> bool) \<Rightarrow> (int \<Rightarrow> bool) \<Rightarrow> Announce \<Rightarrow> error + Announce"
where
  "updateInterfaces_loop [] keepARP keepNDP a = Inr (closeStale keepARP keepNDP a)"
| "updateInterfaces_loop (ifi # ifs) keepARP keepNDP a =
     (case Addrs ifi of
        None \<Rightarrow> Inr a
      | Some addrs \<Rightarrow>
          if \<not> FlagUp ifi then updateInterfaces_loop ifs keepARP keepNDP a
          else if \<not> masterNotExist ifi then updateInterfaces_loop ifs keepARP keepNDP a
          else if sysFlags ifi = EmptyFile then Inl Panic
          else if noARP (sysFlags ifi) then updateInterfaces_loop ifs keepARP keepNDP a
          else
            (case createARP ifi (fst (scanAddrs ifi addrs (keepARP, keepNDP))) a of
               None \<Rightarrow> Inr a
             | Some a1 \<Rightarrow>
                 (case createNDP ifi (snd (scanAddrs ifi addrs (keepARP, keepNDP))) a1 of
                    None \<Rightarrow> Inr a1
                  | Some a2 \<Rightarrow>
                      updateInterfaces_loop ifs
                        (fst (scanAddrs ifi addrs (keepARP, keepNDP)))
                        (snd (scanAddrs ifi addrs (keepARP, keepNDP))) a2)))"

text \<open>\<^verbatim>\<open>net.Interfaces()\<close> yields the interfaces, or fails (\<open>None\<close>).\<close>

definition updateInterfaces :: "Interface list option \<Rightarrow> Announce \<Rightarrow> error + Announce" where
  "updateInterfaces ifs a =
     (case ifs of
        None \<Rightarrow> Inr a
      | Some l \<Rightarrow> updateInterfaces_loop l (\<lambda>i. False) (\<lambda>i. False) a)"

subsection \<open>The spam loop\<close>

text \<open>
  Times are nanoseconds as integers, durations as Go's \<^verbatim>\<open>time.Duration\<close>. The loop's state
  is its map \<^verbatim>\<open>m\<close> from IP text to stop time and its ticker: \<open>None\<close> when stopped, the
  period when running. Each branch of the \<^verbatim>\<open>select\<close> is one function; it returns the new
  state and the IPs it calls \<^verbatim>\<open>gratuitous\<close> with, in order. \<^verbatim>\<open>time.Now()\<close> is the
  argument \<open>now\<close>, and \<^verbatim>\<open>net.ParseIP\<close>, the standard library's parser, the argument
  \<open>ParseIP\<close>.
\<close>

definition Millisecond :: int where
  "Millisecond = 1000000"

definition Second :: int where
  "Second = 1000 * Millisecond"

record spamLoop_state =
  m :: "(string \<times> int) list"
  ticker :: "int option"

definition spamLoop_init :: spamLoop_state where
  "spamLoop_init = \<lparr>m = [], ticker = None\<rparr>"

text \<open>\<^verbatim>\<open>case ip := <-a.spamCh\<close>\<close>

definition spamLoop_recv :: "IP \<Rightarrow> int \<Rightarrow> spamLoop_state \<Rightarrow> spamLoop_state \<times> IP list" where
  "spamLoop_recv ip now st =
     (let st1 = (if length (m st) = 0 then st\<lparr>ticker := Some (1100 * Millisecond)\<rparr> else st);
          ipStr = IP_String ip;
          ok = (map_of (m st1) ipStr \<noteq> None);
          st2 = st1\<lparr>m := AList.update ipStr (now + 5 * Second) (m st1)\<rparr>
      in (st2, if \<not> ok then [ip] else []))"

text \<open>\<^verbatim>\<open>case now := <-ticker.C\<close>: the range over \<^verbatim>\<open>m\<close> visits the entries present when it
  starts, and the only entry the body deletes is the one being visited.\<close>

fun spamLoop_range ::
  "(string \<Rightarrow> IP) \<Rightarrow> int \<Rightarrow> (string \<times> int) list \<Rightarrow>
   (string \<times> int) list \<times> IP list \<Rightarrow> (string \<times> int) list \<times> IP list"
where
  "spamLoop_range ParseIP now [] acc = acc"
| "spamLoop_range ParseIP now ((ipStr, until) # rest) (mm, calls) =
     (if now > until
      then spamLoop_range ParseIP now rest (AList.delete ipStr mm, calls)
      else spamLoop_range ParseIP now rest (mm, calls @ [ParseIP ipStr]))"

definition spamLoop_tick ::
  "(string \<Rightarrow> IP) \<Rightarrow> int \<Rightarrow> spamLoop_state \<Rightarrow> spamLoop_state \<times> IP list" where
  "spamLoop_tick ParseIP now st =
     (let r = spamLoop_range ParseIP now (m st) (m st, []);
          st1 = st\<lparr>m := fst r\<rparr>
      in (if length (m st1) = 0 then st1\<lparr>ticker := None\<rparr> else st1, snd r))"

subsection \<open>Reachable states\<close>

text \<open>
  The states the announcer can be in: it starts as \<^verbatim>\<open>New\<close> returns it; the control plane
  calls \<^verbatim>\<open>SetBalancer\<close> and \<^verbatim>\<open>DeleteBalancer\<close>, the tracker runs \<^verbatim>\<open>updateInterfaces\<close>, and
  the spam loop takes an IP from the channel or calls \<^verbatim>\<open>gratuitous\<close>. The number counts
  the calls of \<^verbatim>\<open>SetBalancer\<close> made so far; no reference count can have wrapped around
  before there have been \<open>2 ^ 63\<close> of them.
\<close>

inductive reachable :: "nat \<Rightarrow> Announce \<Rightarrow> bool" where
  reach_New: "reachable 0 New"
| reach_Set: "reachable n a \<Longrightarrow> reachable (Suc n) (SetBalancer name ip a)"
| reach_Delete: "reachable n a \<Longrightarrow> reachable n (DeleteBalancer name a)"
| reach_update: "reachable n a \<Longrightarrow> updateInterfaces ifs a = Inr a' \<Longrightarrow> reachable n a'"
| reach_gratuitous: "reachable n a \<Longrightarrow> reachable n (gratuitous ip a)"
| reach_recv: "reachable n a \<Longrightarrow> spamCh a = ip # rest \<Longrightarrow> reachable n (a\<lparr>spamCh := rest\<rparr>)"

subsection \<open>Notions the properties are stated with\<close>

text \<open>The number of pairs of a name and a position at which the registry stores \<open>x\<close>.\<close>

definition occurrences :: "Announce \<Rightarrow> IP \<Rightarrow> int" where
  "occurrences a x =
     sum_list (map (\<lambda>(name, l). int (length (filter (\<lambda>i. IP_Equal i x) l))) (ips a))"

text \<open>The same count by the text of the address, which is the key of \<^verbatim>\<open>ipRefcnt\<close>.\<close>

definition uses :: "Announce \<Rightarrow> string \<Rightarrow> int" where
  "uses a k =
     sum_list (map (\<lambda>(name, l). int (count_list (map IP_String l) k)) (ips a))"

text \<open>The count of \<open>k\<close> once it has been decremented for every element of \<open>xs\<close>, with
  the wrap-around of the decrements.\<close>

definition remaining :: "Announce \<Rightarrow> IP list \<Rightarrow> string \<Rightarrow> 64 word" where
  "remaining a xs k = refcnt a k - of_nat (count_list (map IP_String xs) k)"

text \<open>
  Where the loop of \<^verbatim>\<open>DeleteBalancer\<close> over \<open>pre @ rest\<close> ends: every element of \<open>pre\<close>
  has a count of zero or less once the loop has decremented it, and \<open>rest\<close> is empty or
  its first element still has a positive count after its own decrement.
\<close>

definition stopsAfter :: "Announce \<Rightarrow> IP list \<Rightarrow> IP list \<Rightarrow> bool" where
  "stopsAfter a pre rest =
     (list_all (\<lambda>j. remaining a (take (Suc j) pre) (IP_String (pre ! j)) \<le>s 0) [0..<length pre] \<and>
      (case rest of [] \<Rightarrow> True | x # post \<Rightarrow> 0 <s remaining a (pre @ [x]) (IP_String x)))"

text \<open>What every state reachable with \<open>n\<close> calls of \<^verbatim>\<open>SetBalancer\<close> satisfies when
  \<open>n\<close> is less than \<open>2 ^ 63\<close>: the names are distinct keys, and every count is at least the number of
  stored addresses with that text and at most \<open>n\<close>.\<close>

definition registry_inv :: "nat \<Rightarrow> Announce \<Rightarrow> bool" where
  "registry_inv n a =
     (distinct (map fst (ips a)) \<and>
      (\<forall>k. uses a k \<le> sint (refcnt a k) \<and> sint (refcnt a k) \<le> int n))"

text \<open>Every element of \<open>xs\<close> released in turn: its count decremented and \<^verbatim>\<open>Unwatch\<close>
  called on every NDP responder. This is what the loop of \<^verbatim>\<open>DeleteBalancer\<close> does for as
  long as it does not return.\<close>

fun releaseAll :: "IP list \<Rightarrow> Announce \<Rightarrow> Announce" where
  "releaseAll [] a = a"
| "releaseAll (ip # rest) a =
     releaseAll rest
       (a\<lparr>ipRefcnt := AList.update (IP_String ip) (refcnt a (IP_String ip) - 1) (ipRefcnt a),
          ndps := callAll (Unwatch ip) (ndps a)\<rparr>)"

subsection \<open>Example values\<close>

definition ex_v4 :: IP where
  "ex_v4 = [10, 0, 0, 1]"

definition ex_v6 :: IP where
  "ex_v6 = [0x20, 0x01, 0x0d, 0xb8, 0, 0, 0, 0, 0, 0, 0, 0, 0, 0, 0, 1]"

definition ex_linklocal :: IP where
  "ex_linklocal = [0xfe, 0x80, 0, 0, 0, 0, 0, 0, 0, 0, 0, 0, 0, 0, 0, 1]"

definition ex_eth0 :: Interface where
  "ex_eth0 = \<lparr>Index = 2, Name = ''eth0'', FlagUp = True, FlagBroadcast = True,
     Addrs = Some [IPNet ex_linklocal], masterNotExist = True,
     sysFlags = FlagsValue 0x1003, newARPResponder = True, newNDPResponder = True\<rparr>"

text \<open>A parser for the two example texts; any other text is not an IP (nil).\<close>

definition ex_ParseIP :: "string \<Rightarrow> IP" where
  "ex_ParseIP s =
     (if s = ''10.0.0.1'' then v4InV6Prefix @ ex_v4
      else if s = ''2001:db8::1'' then ex_v6 else [])"

text \<open>The state after \<^verbatim>\<open>SetBalancer("svc-a", 10.0.0.1)\<close>, \<^verbatim>\<open>SetBalancer("svc-a", 2001:db8::1)\<close>,
  \<^verbatim>\<open>SetBalancer("svc-b", 10.0.0.1)\<close> and \<^verbatim>\<open>DeleteBalancer("svc-a")\<close>, from the initial state.\<close>

definition ex_leak :: Announce where
  "ex_leak =
     DeleteBalancer ''svc-a''
       (SetBalancer ''svc-b'' ex_v4
          (SetBalancer ''svc-a'' ex_v6 (SetBalancer ''svc-a'' ex_v4 New)))"

text \<open>A state with one NDP responder, in which \<^verbatim>\<open>svc-a\<close> holds three addresses and shares
  the second with \<^verbatim>\<open>svc-b\<close>.\<close>

definition ex_shared :: Announce where
  "ex_shared =
     \<lparr>arps = [], ndps = [(2, [Watch ex_v6])],
      ips = [(''svc-a'', [ex_v6, ex_v4, ex_linklocal]), (''svc-b'', [ex_v4])],
      ipRefcnt = [(''2001:db8::1'', 1), (''10.0.0.1'', 2), (''fe80::1'', 1)],
      spamCh = []\<rparr>"

text \<open>The initial state once the tracker has seen \<^verbatim>\<open>eth0\<close>.\<close>

definition ex_tracked :: Announce where
  "ex_tracked = \<lparr>arps = [], ndps = [(2, [])], ips = [], ipRefcnt = [], spamCh = []\<rparr>"

text \<open>That state once \<^verbatim>\<open>SetBalancer("svc-c", 2001:db8::1)\<close> has run.\<close>

definition ex_single :: Announce where
  "ex_single =
     \<lparr>arps = [], ndps = [(2, [Watch ex_v6])], ips = [(''svc-c'', [ex_v6])],
      ipRefcnt = [(''2001:db8::1'', 1)], spamCh = [ex_v6]\<rparr>"

text \<open>A state in which the count of \<^verbatim>\<open>2001:db8::1\<close> is the smallest \<^verbatim>\<open>int\<close>.\<close>

definition ex_smallest :: Announce where
  "ex_smallest =
     \<lparr>arps = [], ndps = [(2, [])], ips = [(''svc-a'', [ex_v6, ex_v4])],
      ipRefcnt = [(''2001:db8::1'', 0x8000000000000000), (''10.0.0.1'', 1)], spamCh = []\<rparr>"

section \<open>Properties\<close>

subsection \<open>The example values\<close>

lemmas scmp = word_sless_alt word_sle_eq

lemma ex_v4_String: "IP_String ex_v4 = ''10.0.0.1''"
  by (simp add: ex_v4_def IP_String_def IP_To4_def decByte_def hexDigit_def Let_def)

lemma ex_v4_To4: "IP_To4 ex_v4 = Some ex_v4"
  by (simp add: ex_v4_def IP_To4_def)

lemma ex_v6_To4: "IP_To4 ex_v6 = None"
  by (simp add: ex_v6_def IP_To4_def v4InV6Prefix_def)

lemma ex_v6_fields: "fields16 ex_v6 = [0x2001, 0xdb8, 0, 0, 0, 0, 0, 1]"
  by (simp add: ex_v6_def)

lemma ex_v6_length: "length ex_v6 = 16"
  by (simp add: ex_v6_def)

lemma ex_v6_String: "IP_String ex_v6 = ''2001:db8::1''"
  by (simp add: IP_String_def ex_v6_To4 ex_v6_length string6_def ex_v6_fields hexField_def
      hexDigit_def Let_def)

lemma ex_v4_v6_Equal:
  "\<not> IP_Equal ex_v4 ex_v6" "\<not> IP_Equal ex_v6 ex_v4" "IP_Equal ex_v4 ex_v4" "IP_Equal ex_v6 ex_v6"
  by (simp_all add: IP_Equal_def ex_v4_def ex_v6_def v4InV6Prefix_def)

lemma ex_linklocal_is: "IP_IsLinkLocalUnicast ex_linklocal" "IP_To4 ex_linklocal = None"
  by (simp_all add: IP_IsLinkLocalUnicast_def IP_To4_def ex_linklocal_def v4InV6Prefix_def)

lemmas ex_simps =
  ex_v4_String ex_v4_To4 ex_v6_To4 ex_v6_String ex_v4_v6_Equal ex_linklocal_is

lemma ex_linklocal_fields: "fields16 ex_linklocal = [0xfe80, 0, 0, 0, 0, 0, 0, 1]"
  by (simp add: ex_linklocal_def)

lemma ex_linklocal_String: "IP_String ex_linklocal = ''fe80::1''"
  by (simp add: IP_String_def ex_linklocal_is string6_def ex_linklocal_fields hexField_def
      hexDigit_def Let_def)
    (simp add: ex_linklocal_def)

lemma ex_leak_state:
  "ex_leak = \<lparr>arps = [], ndps = [], ips = [(''svc-b'', [ex_v4])],
              ipRefcnt = [(''10.0.0.1'', 1), (''2001:db8::1'', 1)],
              spamCh = [ex_v4, ex_v6, ex_v4]\<rparr>"
  by (simp add: ex_leak_def DeleteBalancer_def SetBalancer_def New_def doSpam_def refcnt_def
      ipsOf_def callAll_def AList.delete_eq ex_simps scmp Let_def)

lemma ex_leak_reachable: "reachable (Suc (Suc (Suc 0))) ex_leak"
  unfolding ex_leak_def by (intro reachable.intros)

lemma ex_eth0_fields:
  "Index ex_eth0 = 2" "FlagUp ex_eth0" "FlagBroadcast ex_eth0"
  "Addrs ex_eth0 = Some [IPNet ex_linklocal]" "masterNotExist ex_eth0"
  "sysFlags ex_eth0 = FlagsValue 0x1003" "newARPResponder ex_eth0" "newNDPResponder ex_eth0"
  by (simp_all add: ex_eth0_def)

lemma ex_eth0_noARP: "\<not> noARP (FlagsValue 0x1003)"
  by (simp add: noARP_def bit_iff_odd)

lemma ex_tracked_update: "updateInterfaces (Some [ex_eth0]) New = Inr ex_tracked"
  by (simp add: updateInterfaces_def ex_eth0_fields ex_eth0_noARP ex_linklocal_is createARP_def
      createNDP_def closeStale_def New_def ex_tracked_def)

lemma ex_tracked_reachable: "reachable 0 ex_tracked"
  using reach_New ex_tracked_update by (rule reach_update)

lemma ex_single_Set: "SetBalancer ''svc-c'' ex_v6 ex_tracked = ex_single"
  by (simp add: SetBalancer_def doSpam_def refcnt_def ipsOf_def callAll_def ex_tracked_def
      ex_single_def ex_simps scmp Let_def)

subsection \<open>The registry in reachable states\<close>

lemma sint_succ: "sint (c :: 64 word) < 2 ^ 63 - 1 \<Longrightarrow> sint (c + 1) = sint c + 1"
proof -
  assume a: "sint c < 2 ^ 63 - 1"
  have g: "- (2 ^ 63) \<le> sint c" using sint_ge [of c] by simp
  have "sint (c + 1) = signed_take_bit 63 (sint c + 1)"
    by (simp add: sint_word_ariths)
  also have "\<dots> = sint c + 1"
    using a g by (intro signed_take_bit_int_eq_self) auto
  finally show ?thesis .
qed

lemma sint_pred: "- (2 ^ 63) < sint (c :: 64 word) \<Longrightarrow> sint (c - 1) = sint c - 1"
proof -
  assume a: "- (2 ^ 63) < sint c"
  have g: "sint c < 2 ^ 63" using sint_lt [of c] by simp
  have "sint (c - 1) = signed_take_bit 63 (sint c - 1)"
    by (simp add: sint_word_ariths)
  also have "\<dots> = sint c - 1"
    using a g by (intro signed_take_bit_int_eq_self) auto
  finally show ?thesis .
qed

lemma refcnt_update:
  "refcnt (a\<lparr>ipRefcnt := AList.update k v (ipRefcnt a)\<rparr>) k' = (if k' = k then v else refcnt a k')"
  by (simp add: refcnt_def AList.update_conv')

lemma refcnt_cong: "ipRefcnt a = ipRefcnt b \<Longrightarrow> refcnt a k = refcnt b k"
  by (simp add: refcnt_def)

lemma sum_alist_update:
  "distinct (map fst al) \<Longrightarrow>
   sum_list (map (\<lambda>(n, l). g l) (AList.update n v al)) =
   sum_list (map (\<lambda>(n, l). g l) al) - (case map_of al n of None \<Rightarrow> 0 | Some l \<Rightarrow> g l) + (g v :: int)"
proof (induction al)
  case Nil
  then show ?case by simp
next
  case (Cons p al)
  obtain n' l' where p: "p = (n', l')" by (cases p)
  show ?case
  proof (cases "n' = n")
    case True
    then show ?thesis using p by simp
  next
    case False
    then show ?thesis using p Cons by simp
  qed
qed

lemma sum_alist_delete:
  "distinct (map fst al) \<Longrightarrow>
   sum_list (map (\<lambda>(n, l). g l) (AList.delete n al)) =
   sum_list (map (\<lambda>(n, l). g l) al) - (case map_of al n of None \<Rightarrow> 0 | Some l \<Rightarrow> (g l :: int))"
proof (induction al)
  case Nil
  then show ?case by simp
next
  case (Cons p al)
  obtain n' l' where p: "p = (n', l')" by (cases p)
  show ?case
  proof (cases "n' = n")
    case True
    then have "n \<notin> fst ` set al" using Cons.prems p by auto
    then have "AList.delete n al = al" by (simp add: AList.delete_notin_dom AList.delete_id)
    then show ?thesis using p True by (simp add: AList.delete_eq)
  next
    case False
    then show ?thesis using p Cons by (simp add: AList.delete_eq)
  qed
qed

lemma sum_alist_member:
  "(n, l) \<in> set al \<Longrightarrow> (\<And>l. 0 \<le> g l) \<Longrightarrow> (g l :: int) \<le> sum_list (map (\<lambda>(n, l). g l) al)"
proof (induction al)
  case Nil
  then show ?case by simp
next
  case (Cons p al)
  have nn: "0 \<le> sum_list (map (\<lambda>(n, l). g l) al)"
    by (rule sum_list_nonneg) (auto simp: Cons.prems(2))
  obtain n' l' where p: "p = (n', l')" by (cases p)
  show ?case
  proof (cases "(n, l) = p")
    case True
    then show ?thesis using nn p by auto
  next
    case False
    then have "g l \<le> sum_list (map (\<lambda>(n, l). g l) al)" using Cons by auto
    moreover have "0 \<le> g l'" by (rule Cons.prems(2))
    ultimately show ?thesis using p by simp
  qed
qed

lemma uses_nonneg: "0 \<le> uses a k"
  unfolding uses_def by (rule sum_list_nonneg) auto

lemma uses_member: "(n, l) \<in> set (ips a) \<Longrightarrow> int (count_list (map IP_String l) k) \<le> uses a k"
  unfolding uses_def by (rule sum_alist_member) simp_all

lemma DeleteBalancer_loop_ips: "ips (DeleteBalancer_loop l a) = ips a"
  by (induction l arbitrary: a) (simp_all add: Let_def)

lemma DeleteBalancer_loop_sint:
  "\<forall>k. int (count_list (map IP_String l) k) \<le> sint (refcnt a k) \<Longrightarrow>
   sint (refcnt a k) - int (count_list (map IP_String l) k)
     \<le> sint (refcnt (DeleteBalancer_loop l a) k) \<and>
   sint (refcnt (DeleteBalancer_loop l a) k) \<le> sint (refcnt a k)"
proof (induction l arbitrary: a)
  case Nil
  then show ?case by simp
next
  case (Cons ip rest)
  let ?kp = "IP_String ip"
  let ?a1 = "a\<lparr>ipRefcnt := AList.update ?kp (refcnt a ?kp - 1) (ipRefcnt a)\<rparr>"
  let ?a2 = "?a1\<lparr>ndps := callAll (Unwatch ip) (ndps ?a1)\<rparr>"
  have "int (count_list (map IP_String (ip # rest)) ?kp) \<le> sint (refcnt a ?kp)"
    using Cons.prems by blast
  then have pos: "1 \<le> sint (refcnt a ?kp)" by simp
  then have dec: "sint (refcnt a ?kp - 1) = sint (refcnt a ?kp) - 1"
    by (intro sint_pred) simp
  have r1: "sint (refcnt ?a1 k) = (if k = ?kp then sint (refcnt a k) - 1 else sint (refcnt a k))" for k
    using dec by (simp add: refcnt_update)
  have r2: "refcnt ?a2 k = refcnt ?a1 k" for k by (rule refcnt_cong) simp
  have c: "int (count_list (map IP_String (ip # rest)) k)
      = int (count_list (map IP_String rest) k) + (if k = ?kp then 1 else 0)" for k
    by simp
  show ?case
  proof (cases "0 <s refcnt ?a1 ?kp")
    case True
    then have e: "DeleteBalancer_loop (ip # rest) a = ?a1" by (simp add: Let_def)
    show ?thesis unfolding e using r1 [of k] c [of k] by (auto split: if_splits)
  next
    case False
    then have e: "DeleteBalancer_loop (ip # rest) a = DeleteBalancer_loop rest ?a2"
      by (simp add: Let_def)
    have pre: "\<forall>k. int (count_list (map IP_String rest) k) \<le> sint (refcnt ?a2 k)"
    proof
      fix k'
      have "int (count_list (map IP_String (ip # rest)) k') \<le> sint (refcnt a k')"
        using Cons.prems by blast
      then show "int (count_list (map IP_String rest) k') \<le> sint (refcnt ?a2 k')"
        using r1 [of k'] c [of k'] by (simp only: r2 split: if_splits) auto
    qed
    have ih: "sint (refcnt ?a2 k) - int (count_list (map IP_String rest) k)
        \<le> sint (refcnt (DeleteBalancer_loop rest ?a2) k) \<and>
        sint (refcnt (DeleteBalancer_loop rest ?a2) k) \<le> sint (refcnt ?a2 k)"
      using pre by (rule Cons.IH)
    have "sint (refcnt ?a2 k) = (if k = ?kp then sint (refcnt a k) - 1 else sint (refcnt a k))"
      using r1 [of k] by (simp only: r2)
    then show ?thesis unfolding e using ih c [of k] by (auto split: if_splits)
  qed
qed

lemma inv_SetBalancer:
  assumes "registry_inv n a" "int n < 2 ^ 63 - 1"
  shows "registry_inv (Suc n) (SetBalancer name ip a)"
proof -
  have d: "distinct (map fst (ips a))" using assms by (simp add: registry_inv_def)
  have b: "uses a k \<le> sint (refcnt a k)" "sint (refcnt a k) \<le> int n" for k
    using assms by (simp_all add: registry_inv_def)
  have "sint (refcnt a (IP_String ip)) < 2 ^ 63 - 1" using b(2) [of "IP_String ip"] assms(2) by linarith
  then have inc: "sint (refcnt a (IP_String ip) + 1) = sint (refcnt a (IP_String ip)) + 1"
    by (rule sint_succ)
  have i: "ips (SetBalancer name ip a) = AList.update name (ipsOf a name @ [ip]) (ips a)"
    by (simp add: SetBalancer_def doSpam_def Let_def)
  have r: "refcnt (SetBalancer name ip a) k = (if k = IP_String ip then refcnt a k + 1 else refcnt a k)" for k
    by (simp add: SetBalancer_def doSpam_def Let_def refcnt_def AList.update_conv')
  have u: "uses (SetBalancer name ip a) k = uses a k + (if k = IP_String ip then 1 else 0)" for k
    unfolding uses_def i using sum_alist_update [OF d, of "\<lambda>l. int (count_list (map IP_String l) k)" name]
    by (simp add: ipsOf_def split: option.splits)
  have "uses (SetBalancer name ip a) k \<le> sint (refcnt (SetBalancer name ip a) k) \<and>
        sint (refcnt (SetBalancer name ip a) k) \<le> int (Suc n)" for k
    using b [of k] inc by (auto simp: r u)
  then show ?thesis unfolding registry_inv_def
    using d by (simp add: i AList.distinct_update)
qed

lemma inv_DeleteBalancer:
  assumes "registry_inv n a"
  shows "registry_inv n (DeleteBalancer name a)"
proof (cases "map_of (ips a) name")
  case None
  then show ?thesis using assms by (simp add: DeleteBalancer_def)
next
  case (Some l)
  let ?a0 = "a\<lparr>ips := AList.delete name (ips a)\<rparr>"
  have d: "distinct (map fst (ips a))" using assms by (simp add: registry_inv_def)
  have b: "uses a k \<le> sint (refcnt a k)" "sint (refcnt a k) \<le> int n" for k
    using assms by (simp_all add: registry_inv_def)
  have mem: "(name, l) \<in> set (ips a)" using Some by (rule map_of_SomeD)
  have e: "DeleteBalancer name a = DeleteBalancer_loop l ?a0" using Some by (simp add: DeleteBalancer_def)
  have i: "ips (DeleteBalancer name a) = AList.delete name (ips a)"
    by (simp add: e DeleteBalancer_loop_ips)
  have u: "uses (DeleteBalancer name a) k = uses a k - int (count_list (map IP_String l) k)" for k
    unfolding uses_def i using sum_alist_delete [OF d, of "\<lambda>l. int (count_list (map IP_String l) k)" name] Some
    by simp
  have r0: "refcnt ?a0 k = refcnt a k" for k by (simp add: refcnt_def)
  have "\<forall>k. int (count_list (map IP_String l) k) \<le> sint (refcnt ?a0 k)"
    using uses_member [OF mem] b(1) by (auto simp: r0 intro: order_trans)
  then have r: "sint (refcnt a k) - int (count_list (map IP_String l) k)
        \<le> sint (refcnt (DeleteBalancer name a) k) \<and>
      sint (refcnt (DeleteBalancer name a) k) \<le> sint (refcnt a k)" for k
    using DeleteBalancer_loop_sint [of l ?a0 k] by (simp add: e r0)
  have "uses (DeleteBalancer name a) k \<le> sint (refcnt (DeleteBalancer name a) k) \<and>
        sint (refcnt (DeleteBalancer name a) k) \<le> int n" for k
    using u [of k] r [of k] b [of k] by linarith
  then show ?thesis unfolding registry_inv_def using d by (simp add: i AList.distinct_delete)
qed

lemma createARP_registry:
  "createARP ifi kA a = Some a' \<Longrightarrow>
   ips a' = ips a \<and> ipRefcnt a' = ipRefcnt a \<and> spamCh a' = spamCh a \<and> ndps a' = ndps a"
  by (auto simp: createARP_def split: if_splits)

lemma createNDP_registry:
  "createNDP ifi kN a = Some a' \<Longrightarrow>
   ips a' = ips a \<and> ipRefcnt a' = ipRefcnt a \<and> spamCh a' = spamCh a \<and> arps a' = arps a"
  by (auto simp: createNDP_def split: if_splits)

lemma updateInterfaces_loop_registry:
  "updateInterfaces_loop ifs kA kN a = Inr a' \<Longrightarrow>
   ips a' = ips a \<and> ipRefcnt a' = ipRefcnt a \<and> spamCh a' = spamCh a"
proof (induction ifs arbitrary: kA kN a)
  case Nil
  then show ?case by (auto simp: closeStale_def)
next
  case (Cons ifi ifs)
  show ?case
    using Cons.prems
    by (auto split: option.splits if_splits dest!: Cons.IH createARP_registry createNDP_registry)
qed

lemma updateInterfaces_registry:
  "updateInterfaces ifs a = Inr a' \<Longrightarrow> ips a' = ips a \<and> ipRefcnt a' = ipRefcnt a \<and> spamCh a' = spamCh a"
  by (auto simp: updateInterfaces_def split: option.splits dest: updateInterfaces_loop_registry)

lemma registry_inv_cong:
  "ips a' = ips a \<Longrightarrow> ipRefcnt a' = ipRefcnt a \<Longrightarrow> registry_inv n a \<Longrightarrow> registry_inv n a'"
  by (simp add: registry_inv_def uses_def refcnt_def)

lemma reachable_inv: "reachable n a \<Longrightarrow> int n < 2 ^ 63 \<Longrightarrow> registry_inv n a"
proof (induction rule: reachable.induct)
  case reach_New
  then show ?case by (simp add: registry_inv_def New_def uses_def refcnt_def)
next
  case (reach_Set n a name ip)
  then show ?case by (simp add: inv_SetBalancer)
next
  case (reach_Delete n a name)
  then show ?case by (simp add: inv_DeleteBalancer)
next
  case (reach_update n a ifs a')
  then show ?case using updateInterfaces_registry registry_inv_cong by blast
next
  case (reach_gratuitous n a ip)
  then show ?case by (auto simp: gratuitous_def intro: registry_inv_cong)
next
  case (reach_recv n a ip rest)
  then show ?case by (auto intro: registry_inv_cong)
qed

lemma reachable_refcnt_bounds:
  "reachable n a \<Longrightarrow> int n < 2 ^ 63 \<Longrightarrow> 0 \<le> sint (refcnt a k) \<and> sint (refcnt a k) \<le> int n"
  using reachable_inv [of n a] uses_nonneg [of a k] by (auto simp: registry_inv_def intro: order_trans)

lemma map_of_delete_self: "map_of (AList.delete k al) k = None"
  by (simp add: AList.delete_conv')

subsection \<open>gratuitous\<close>

text \<open>
  C6. No gratuitous frame is emitted for an IP whose reference count is zero or less:
  frames are only sent by the \<^verbatim>\<open>Gratuitous\<close> calls of \<^verbatim>\<open>gratuitous\<close>, and with such a
  count \<^verbatim>\<open>gratuitous\<close> returns at once, having called no responder and changed nothing.
\<close>

theorem gratuitous_without_refcount:
  "refcnt a (IP_String ip) \<le>s 0 \<Longrightarrow> gratuitous ip a = a"
  by (simp add: gratuitous_def)

theorem gratuitous_without_refcount_witness:
  "refcnt \<lparr>arps = [(2, [])], ndps = [(2, [Watch ex_v6, Unwatch ex_v6])], ips = [],
           ipRefcnt = [(''2001:db8::1'', 0)], spamCh = []\<rparr> (IP_String ex_v6) \<le>s 0
   \<and> gratuitous ex_v6
       \<lparr>arps = [(2, [])], ndps = [(2, [Watch ex_v6, Unwatch ex_v6])], ips = [],
        ipRefcnt = [(''2001:db8::1'', 0)], spamCh = []\<rparr>
     = \<lparr>arps = [(2, [])], ndps = [(2, [Watch ex_v6, Unwatch ex_v6])], ips = [],
        ipRefcnt = [(''2001:db8::1'', 0)], spamCh = []\<rparr>"
  using gratuitous_without_refcount
    [of "\<lparr>arps = [(2, [])], ndps = [(2, [Watch ex_v6, Unwatch ex_v6])], ips = [],
          ipRefcnt = [(''2001:db8::1'', 0)], spamCh = []\<rparr>" ex_v6]
  by (simp add: refcnt_def ex_simps scmp)

text \<open>
  C9. For an IP with a positive reference count, \<^verbatim>\<open>gratuitous\<close> calls \<^verbatim>\<open>Gratuitous\<close> on
  every responder of the IP's family and on none of the other: on every ARP responder
  when the IP is an IPv4 address (\<^verbatim>\<open>To4\<close> is not nil), on every NDP responder otherwise.
\<close>

theorem gratuitous_matching_family:
  "0 <s refcnt a (IP_String ip) \<Longrightarrow>
   (IP_To4 ip \<noteq> None \<longrightarrow>
      arps (gratuitous ip a) = map (\<lambda>(i, r). (i, r @ [Gratuitous ip])) (arps a) \<and>
      ndps (gratuitous ip a) = ndps a) \<and>
   (IP_To4 ip = None \<longrightarrow>
      ndps (gratuitous ip a) = map (\<lambda>(i, r). (i, r @ [Gratuitous ip])) (ndps a) \<and>
      arps (gratuitous ip a) = arps a)"
  by (simp add: gratuitous_def callAll_def) (simp add: scmp)

theorem gratuitous_matching_family_witness:
  "0 <s refcnt \<lparr>arps = [(2, []), (3, [])], ndps = [(2, [])], ips = [(''svc-a'', [ex_v4])],
               ipRefcnt = [(''10.0.0.1'', 1)], spamCh = []\<rparr> (IP_String ex_v4)
   \<and> IP_To4 ex_v4 \<noteq> None
   \<and> arps (gratuitous ex_v4
        \<lparr>arps = [(2, []), (3, [])], ndps = [(2, [])], ips = [(''svc-a'', [ex_v4])],
         ipRefcnt = [(''10.0.0.1'', 1)], spamCh = []\<rparr>)
      = [(2, [Gratuitous ex_v4]), (3, [Gratuitous ex_v4])]
   \<and> ndps (gratuitous ex_v4
        \<lparr>arps = [(2, []), (3, [])], ndps = [(2, [])], ips = [(''svc-a'', [ex_v4])],
         ipRefcnt = [(''10.0.0.1'', 1)], spamCh = []\<rparr>)
      = [(2, [])]"
  using gratuitous_matching_family
    [of "\<lparr>arps = [(2, []), (3, [])], ndps = [(2, [])], ips = [(''svc-a'', [ex_v4])],
          ipRefcnt = [(''10.0.0.1'', 1)], spamCh = []\<rparr>" ex_v4]
  by (simp add: refcnt_def ex_simps scmp)

subsection \<open>DeleteBalancer\<close>

text \<open>
  C10. \<^verbatim>\<open>DeleteBalancer(name)\<close> removes the entry of \<open>name\<close> from the mapping of names to
  IPs whatever the loop over the IPs then does, so \<^verbatim>\<open>AnnounceName(name)\<close> is false
  afterwards, also when the loop has returned early; and when \<open>name\<close> has no entry the
  call leaves the whole state as it is.
\<close>

theorem DeleteBalancer_removes_name:
  "ips (DeleteBalancer name a) = AList.delete name (ips a) \<and>
   \<not> AnnounceName name (DeleteBalancer name a) \<and>
   (\<not> AnnounceName name a \<longrightarrow> DeleteBalancer name a = a)"
proof -
  have "map_of (ips a) name = None \<Longrightarrow> AList.delete name (ips a) = ips a"
    by (simp add: AList.delete_id map_of_eq_None_iff)
  then show ?thesis
    by (simp add: DeleteBalancer_def AnnounceName_def DeleteBalancer_loop_ips map_of_delete_self
        split: option.splits)
qed

theorem DeleteBalancer_removes_name_witness:
  "\<not> AnnounceName ''svc-a''
       (DeleteBalancer ''svc-a''
          (SetBalancer ''svc-b'' ex_v4 (SetBalancer ''svc-a'' ex_v6 (SetBalancer ''svc-a'' ex_v4 New))))
   \<and> \<not> AnnounceName ''svc-a'' New \<and> DeleteBalancer ''svc-a'' New = New"
  using DeleteBalancer_removes_name
    [of "''svc-a''"
        "SetBalancer ''svc-b'' ex_v4 (SetBalancer ''svc-a'' ex_v6 (SetBalancer ''svc-a'' ex_v4 New))"]
    DeleteBalancer_removes_name [of "''svc-a''" New]
  by (simp add: AnnounceName_def New_def map_of_delete_self)

lemma remaining_Cons:
  "remaining a (x # xs) k =
   remaining (a\<lparr>ipRefcnt := AList.update (IP_String x) (refcnt a (IP_String x) - 1) (ipRefcnt a),
                ndps := callAll (Unwatch x) (ndps a)\<rparr>) xs k"
  by (simp add: remaining_def refcnt_def AList.update_conv')

lemma releaseAll_refcnt: "refcnt (releaseAll xs a) k = remaining a xs k"
proof (induction xs arbitrary: a)
  case Nil
  then show ?case by (simp add: remaining_def)
next
  case (Cons x xs)
  show ?case by (simp only: releaseAll.simps Cons.IH remaining_Cons)
qed

lemma releaseAll_ndps: "ndps (releaseAll xs a) = map (\<lambda>(i, r). (i, r @ map Unwatch xs)) (ndps a)"
proof (induction xs arbitrary: a)
  case Nil
  then show ?case by (simp add: case_prod_beta)
next
  case (Cons x xs)
  show ?case by (simp add: Cons.IH callAll_def case_prod_beta o_def)
qed

lemma releaseAll_others:
  "ips (releaseAll xs a) = ips a \<and> arps (releaseAll xs a) = arps a \<and> spamCh (releaseAll xs a) = spamCh a"
  by (induction xs arbitrary: a) simp_all

lemma stopsAfter_iff:
  "stopsAfter a pre rest =
     ((\<forall>j<length pre. remaining a (take (Suc j) pre) (IP_String (pre ! j)) \<le>s 0) \<and>
      (rest = [] \<or> 0 <s remaining a (pre @ [hd rest]) (IP_String (hd rest))))"
  by (cases rest) (auto simp: stopsAfter_def list_all_iff)

lemma stopsAfter_Cons:
  "stopsAfter a (x # pre) rest =
     (refcnt a (IP_String x) - 1 \<le>s 0 \<and>
      stopsAfter (a\<lparr>ipRefcnt := AList.update (IP_String x) (refcnt a (IP_String x) - 1) (ipRefcnt a),
                    ndps := callAll (Unwatch x) (ndps a)\<rparr>) pre rest)"
proof -
  let ?b = "a\<lparr>ipRefcnt := AList.update (IP_String x) (refcnt a (IP_String x) - 1) (ipRefcnt a),
                    ndps := callAll (Unwatch x) (ndps a)\<rparr>"
  have h: "remaining ?b [] (IP_String x) = refcnt a (IP_String x) - 1"
    by (simp add: remaining_def refcnt_def AList.update_conv')
  have "(\<forall>j<length (x # pre). remaining a (take (Suc j) (x # pre)) (IP_String ((x # pre) ! j)) \<le>s 0)
      = (refcnt a (IP_String x) - 1 \<le>s 0 \<and>
         (\<forall>j<length pre. remaining ?b (take (Suc j) pre) (IP_String (pre ! j)) \<le>s 0))"
    by (simp only: All_less_Suc2 length_Cons take_Suc_Cons nth_Cons_0 nth_Cons_Suc take_0
        remaining_Cons h)
  moreover have "remaining a ((x # pre) @ [y]) k = remaining ?b (pre @ [y]) k" for y k
    by (simp add: remaining_Cons)
  ultimately show ?thesis by (simp only: stopsAfter_iff conj_assoc)
qed

lemma stopsAfter_exists: "\<exists>pre rest. l = pre @ rest \<and> stopsAfter a pre rest"
proof (induction l arbitrary: a)
  case Nil
  have "stopsAfter a [] []" by (simp add: stopsAfter_def)
  then show ?case by simp
next
  case (Cons x xs)
  let ?b = "a\<lparr>ipRefcnt := AList.update (IP_String x) (refcnt a (IP_String x) - 1) (ipRefcnt a),
                ndps := callAll (Unwatch x) (ndps a)\<rparr>"
  show ?case
  proof (cases "0 <s refcnt a (IP_String x) - 1")
    case True
    then have "stopsAfter a [] (x # xs)" by (simp add: stopsAfter_def remaining_def)
    then show ?thesis by (metis append_Nil)
  next
    case False
    then have le: "refcnt a (IP_String x) - 1 \<le>s 0" by simp
    obtain pre rest where s: "xs = pre @ rest" "stopsAfter ?b pre rest"
      using Cons.IH [of ?b] by blast
    have "stopsAfter a (x # pre) rest" using le s(2) by (simp only: stopsAfter_Cons)
    then show ?thesis using s(1) by (metis append_Cons)
  qed
qed

lemma DeleteBalancer_loop_stop:
  "stopsAfter a pre rest \<Longrightarrow>
   DeleteBalancer_loop (pre @ rest) a =
     (case rest of
        [] \<Rightarrow> releaseAll pre a
      | x # post \<Rightarrow>
          (releaseAll pre a)\<lparr>ipRefcnt :=
             AList.update (IP_String x) (refcnt (releaseAll pre a) (IP_String x) - 1)
               (ipRefcnt (releaseAll pre a))\<rparr>)"
proof (induction pre arbitrary: a)
  case Nil
  show ?case
  proof (cases rest)
    case Nil
    then show ?thesis by simp
  next
    case (Cons x post)
    then have "0 <s refcnt a (IP_String x) - 1"
      using Nil.prems by (simp add: stopsAfter_def remaining_def)
    then show ?thesis using Cons by (simp add: Let_def refcnt_update)
  qed
next
  case (Cons p ps)
  let ?b = "a\<lparr>ipRefcnt := AList.update (IP_String p) (refcnt a (IP_String p) - 1) (ipRefcnt a),
                ndps := callAll (Unwatch p) (ndps a)\<rparr>"
  have le: "refcnt a (IP_String p) - 1 \<le>s 0" and st: "stopsAfter ?b ps rest"
    using Cons.prems by (simp_all only: stopsAfter_Cons)
  have "\<not> 0 <s refcnt a (IP_String p) - 1" using le by simp
  then have e1: "DeleteBalancer_loop ((p # ps) @ rest) a = DeleteBalancer_loop (ps @ rest) ?b"
    by (simp add: Let_def refcnt_update)
  show ?case unfolding e1 Cons.IH [OF st] releaseAll.simps by (rule refl)
qed

text \<open>
  C2. \<^verbatim>\<open>DeleteBalancer(name)\<close> goes through the IPs \<open>l\<close> stored under \<open>name\<close> in the order
  they were stored, decrementing the count of each, and stops at the first IP whose count
  is still positive after its decrement. The list splits, in one way only by what the
  counts are, into the IPs \<open>pre\<close> that come down to zero or less and the others \<open>rest\<close>,
  which are none or start with an IP that stays positive. Every IP of \<open>pre\<close> has been
  decremented and unwatched on every NDP responder, in order; the first IP of \<open>rest\<close>,
  if there is one, has been decremented and not unwatched; and for the IPs after it nothing
  has been decremented and no responder has been called. The decrements wrap around
  as Go's do.
\<close>

theorem DeleteBalancer_in_order:
  assumes "map_of (ips a) name = Some l"
  shows "(\<exists>pre rest. l = pre @ rest \<and> stopsAfter a pre rest) \<and>
         (\<forall>pre rest. l = pre @ rest \<and> stopsAfter a pre rest \<longrightarrow>
            ips (DeleteBalancer name a) = AList.delete name (ips a) \<and>
            (\<forall>k. refcnt (DeleteBalancer name a) k = remaining a (pre @ take 1 rest) k) \<and>
            ndps (DeleteBalancer name a) = map (\<lambda>(i, r). (i, r @ map Unwatch pre)) (ndps a) \<and>
            arps (DeleteBalancer name a) = arps a \<and>
            spamCh (DeleteBalancer name a) = spamCh a)"
proof (intro conjI allI impI)
  show "\<exists>pre rest. l = pre @ rest \<and> stopsAfter a pre rest" by (rule stopsAfter_exists)
next
  fix pre rest
  assume h: "l = pre @ rest \<and> stopsAfter a pre rest"
  let ?a0 = "a\<lparr>ips := AList.delete name (ips a)\<rparr>"
  let ?b = "releaseAll pre ?a0"
  have rem0: "remaining ?a0 xs k = remaining a xs k" for xs k
    by (simp add: remaining_def refcnt_def)
  have st0: "stopsAfter ?a0 pre rest" using h by (simp add: stopsAfter_def rem0 split: list.splits)
  have e: "DeleteBalancer name a =
      (case rest of [] \<Rightarrow> ?b
       | x # post \<Rightarrow> ?b\<lparr>ipRefcnt :=
           AList.update (IP_String x) (refcnt ?b (IP_String x) - 1) (ipRefcnt ?b)\<rparr>)"
    using assms h DeleteBalancer_loop_stop [OF st0] by (simp add: DeleteBalancer_def)
  have rb: "refcnt ?b k = remaining a pre k" for k
    by (simp add: releaseAll_refcnt rem0)
  have R: "refcnt (DeleteBalancer name a) k = remaining a (pre @ take 1 rest) k" for k
  proof (cases rest)
    case Nil
    then show ?thesis using rb [of k] by (simp add: e)
  next
    case (Cons x post)
    then show ?thesis by (simp add: e refcnt_update rb remaining_def)
  qed
  have O: "ips (DeleteBalancer name a) = AList.delete name (ips a)"
    "ndps (DeleteBalancer name a) = map (\<lambda>(i, r). (i, r @ map Unwatch pre)) (ndps a)"
    "arps (DeleteBalancer name a) = arps a" "spamCh (DeleteBalancer name a) = spamCh a"
    by (cases rest; simp add: e releaseAll_ndps releaseAll_others)+
  show "ips (DeleteBalancer name a) = AList.delete name (ips a)" by (rule O)
  show "refcnt (DeleteBalancer name a) k = remaining a (pre @ take 1 rest) k" for k by (rule R)
  show "ndps (DeleteBalancer name a) = map (\<lambda>(i, r). (i, r @ map Unwatch pre)) (ndps a)" by (rule O)
  show "arps (DeleteBalancer name a) = arps a" by (rule O)
  show "spamCh (DeleteBalancer name a) = spamCh a" by (rule O)
qed

theorem DeleteBalancer_in_order_witness:
  "map_of (ips ex_shared) ''svc-a'' = Some ([ex_v6] @ [ex_v4, ex_linklocal]) \<and>
   stopsAfter ex_shared [ex_v6] [ex_v4, ex_linklocal] \<and>
   refcnt (DeleteBalancer ''svc-a'' ex_shared) ''2001:db8::1'' = 0 \<and>
   refcnt (DeleteBalancer ''svc-a'' ex_shared) ''10.0.0.1'' = 1 \<and>
   refcnt (DeleteBalancer ''svc-a'' ex_shared) ''fe80::1'' = 1 \<and>
   ndps (DeleteBalancer ''svc-a'' ex_shared) = [(2, [Watch ex_v6, Unwatch ex_v6])] \<and>
   map_of (ips ex_single) ''svc-c'' = Some ([ex_v6] @ []) \<and>
   stopsAfter ex_single [ex_v6] [] \<and>
   ips (DeleteBalancer ''svc-c'' ex_single) = [] \<and>
   refcnt (DeleteBalancer ''svc-c'' ex_single) ''2001:db8::1'' = 0 \<and>
   ndps (DeleteBalancer ''svc-c'' ex_single) = [(2, [Watch ex_v6, Unwatch ex_v6])] \<and>
   map_of (ips ex_smallest) ''svc-a'' = Some ([] @ [ex_v6, ex_v4]) \<and>
   stopsAfter ex_smallest [] [ex_v6, ex_v4] \<and>
   refcnt (DeleteBalancer ''svc-a'' ex_smallest) ''2001:db8::1'' = 0x7fffffffffffffff \<and>
   refcnt (DeleteBalancer ''svc-a'' ex_smallest) ''10.0.0.1'' = 1 \<and>
   ndps (DeleteBalancer ''svc-a'' ex_smallest) = [(2, [])]"
proof -
  have h1: "map_of (ips ex_shared) ''svc-a'' = Some ([ex_v6] @ [ex_v4, ex_linklocal])"
    by (simp add: ex_shared_def)
  have s1: "stopsAfter ex_shared [ex_v6] [ex_v4, ex_linklocal]"
    by (simp add: stopsAfter_def remaining_def refcnt_def ex_shared_def ex_simps scmp)
  have h2: "map_of (ips ex_single) ''svc-c'' = Some ([ex_v6] @ [])"
    by (simp add: ex_single_def)
  have s2: "stopsAfter ex_single [ex_v6] []"
    by (simp add: stopsAfter_def remaining_def refcnt_def ex_single_def ex_simps scmp)
  have h3: "map_of (ips ex_smallest) ''svc-a'' = Some ([] @ [ex_v6, ex_v4])"
    by (simp add: ex_smallest_def)
  have s3: "stopsAfter ex_smallest [] [ex_v6, ex_v4]"
    by (simp add: stopsAfter_def remaining_def refcnt_def ex_smallest_def ex_simps scmp)
  note t1 = DeleteBalancer_in_order [OF h1, THEN conjunct2, rule_format,
      of "[ex_v6]" "[ex_v4, ex_linklocal]"]
  note t2 = DeleteBalancer_in_order [OF h2, THEN conjunct2, rule_format, of "[ex_v6]" "[]"]
  note t3 = DeleteBalancer_in_order [OF h3, THEN conjunct2, rule_format, of "[]" "[ex_v6, ex_v4]"]
  have r1: "refcnt (DeleteBalancer ''svc-a'' ex_shared) ''2001:db8::1'' = 0"
    "refcnt (DeleteBalancer ''svc-a'' ex_shared) ''10.0.0.1'' = 1"
    "refcnt (DeleteBalancer ''svc-a'' ex_shared) ''fe80::1'' = 1"
    "ndps (DeleteBalancer ''svc-a'' ex_shared) = [(2, [Watch ex_v6, Unwatch ex_v6])]"
    using t1 s1 by (simp_all add: remaining_def refcnt_def ex_shared_def ex_simps)
  have r2: "ips (DeleteBalancer ''svc-c'' ex_single) = []"
    "refcnt (DeleteBalancer ''svc-c'' ex_single) ''2001:db8::1'' = 0"
    "ndps (DeleteBalancer ''svc-c'' ex_single) = [(2, [Watch ex_v6, Unwatch ex_v6])]"
    using t2 s2 by (simp_all add: remaining_def refcnt_def ex_single_def ex_simps AList.delete_eq)
  have r3: "refcnt (DeleteBalancer ''svc-a'' ex_smallest) ''2001:db8::1'' = 0x7fffffffffffffff"
    "refcnt (DeleteBalancer ''svc-a'' ex_smallest) ''10.0.0.1'' = 1"
    "ndps (DeleteBalancer ''svc-a'' ex_smallest) = [(2, [])]"
    using t3 s3 by (simp_all add: remaining_def refcnt_def ex_smallest_def ex_simps)
  show ?thesis using h1 s1 r1 h2 s2 r2 h3 s3 r3 by (intro conjI)
qed

subsection \<open>SetBalancer\<close>

lemma IP_To4_String: "IP_To4 ip = Some p \<Longrightarrow> IP_String ip = joinWith ''.'' (map decByte p)"
  by (auto simp: IP_String_def IP_To4_def split: if_splits)

lemma IP_Equal_To4:
  "IP_Equal i x \<Longrightarrow> length i \<noteq> length x \<Longrightarrow> \<exists>p. IP_To4 i = Some p \<and> IP_To4 x = Some p"
  by (auto simp: IP_Equal_def IP_To4_def split: if_splits)

lemma IP_Equal_String: "IP_Equal i x \<Longrightarrow> IP_String i = IP_String x"
proof (cases "length i = length x")
  case True
  assume "IP_Equal i x"
  then show ?thesis using True by (simp add: IP_Equal_def)
next
  case False
  assume "IP_Equal i x"
  then obtain p where "IP_To4 i = Some p" "IP_To4 x = Some p"
    using False IP_Equal_To4 by blast
  then show ?thesis by (simp add: IP_To4_String)
qed

lemma occurrences_le_uses: "occurrences a x \<le> uses a (IP_String x)"
proof -
  have "int (length (filter (\<lambda>i. IP_Equal i x) l)) \<le> int (count_list (map IP_String l) (IP_String x))"
    for l
    by (induction l) (auto dest: IP_Equal_String)
  then show ?thesis
    unfolding occurrences_def uses_def by (intro sum_list_mono) auto
qed

lemma occurrences_nonneg: "0 \<le> occurrences a x"
  unfolding occurrences_def by (rule sum_list_nonneg) auto

lemma sint_eq_0: "(sint (c :: 64 word) = 0) = (c = 0)"
  using signed_eq_0_iff [of c, where ?'a = int] by simp

text \<open>
  C5. In a state reached with fewer than \<open>2 ^ 63 - 1\<close> calls of \<^verbatim>\<open>SetBalancer\<close>, so
  that no count can wrap around, \<^verbatim>\<open>SetBalancer(name, ip)\<close> appends \<open>ip\<close> to the IPs of
  \<open>name\<close> and increments the count of \<open>ip\<close>; it calls \<^verbatim>\<open>Watch(ip)\<close> on every NDP
  responder if the count of \<open>ip\<close> was 0 before the call, which is how the code knows a
  first reference, and on none otherwise; when the count was 0, no name stored \<open>ip\<close>; and
  it sends \<open>ip\<close> to the spam loop's channel in either case.
\<close>

theorem SetBalancer_effects:
  assumes "reachable n a" "int n < 2 ^ 63 - 1"
  shows "ipsOf (SetBalancer name ip a) name = ipsOf a name @ [ip] \<and>
         (\<forall>other. other \<noteq> name \<longrightarrow> ipsOf (SetBalancer name ip a) other = ipsOf a other) \<and>
         (\<forall>k. refcnt (SetBalancer name ip a) k =
                (if k = IP_String ip then refcnt a k + 1 else refcnt a k)) \<and>
         sint (refcnt (SetBalancer name ip a) (IP_String ip)) = sint (refcnt a (IP_String ip)) + 1 \<and>
         ndps (SetBalancer name ip a) =
           (if refcnt a (IP_String ip) = 0 then map (\<lambda>(i, r). (i, r @ [Watch ip])) (ndps a)
            else ndps a) \<and>
         (refcnt a (IP_String ip) = 0 \<longrightarrow> occurrences a ip = 0) \<and>
         arps (SetBalancer name ip a) = arps a \<and>
         spamCh (SetBalancer name ip a) = spamCh a @ [ip]"
proof -
  have n: "int n < 2 ^ 63" using assms(2) by simp
  have "uses a (IP_String ip) \<le> sint (refcnt a (IP_String ip))"
    using reachable_inv [OF assms(1) n] by (simp add: registry_inv_def)
  then have "refcnt a (IP_String ip) = 0 \<Longrightarrow> occurrences a ip \<le> 0"
    using occurrences_le_uses [of a ip] by simp
  then have Z: "refcnt a (IP_String ip) = 0 \<longrightarrow> occurrences a ip = 0"
    using occurrences_nonneg [of a ip] by (auto intro: antisym)
  have "int n < 2 ^ 63" by (rule n)
  then have b: "0 \<le> sint (refcnt a (IP_String ip))" "sint (refcnt a (IP_String ip)) \<le> int n"
    using reachable_refcnt_bounds [OF assms(1), of "IP_String ip"] by simp_all
  then have "sint (refcnt a (IP_String ip)) < 2 ^ 63 - 1" using assms(2) by linarith
  then have inc: "sint (refcnt a (IP_String ip) + 1) = sint (refcnt a (IP_String ip)) + 1"
    by (rule sint_succ)
  have t: "(1 <s refcnt a (IP_String ip) + 1) = (refcnt a (IP_String ip) \<noteq> 0)"
    using b(1) sint_eq_0 [of "refcnt a (IP_String ip)"] by (auto simp: word_sless_alt inc less_le)
  have I: "ips (SetBalancer name ip a) = AList.update name (ipsOf a name @ [ip]) (ips a)"
    by (simp add: SetBalancer_def doSpam_def Let_def)
  have R: "refcnt (SetBalancer name ip a) k =
      (if k = IP_String ip then refcnt a k + 1 else refcnt a k)" for k
    by (simp add: SetBalancer_def doSpam_def Let_def refcnt_def AList.update_conv')
  have N: "ndps (SetBalancer name ip a) =
      (if 1 <s refcnt a (IP_String ip) + 1 then ndps a else callAll (Watch ip) (ndps a))"
    by (simp add: SetBalancer_def doSpam_def Let_def refcnt_def AList.update_conv')
  have N': "ndps (SetBalancer name ip a) =
      (if refcnt a (IP_String ip) = 0 then map (\<lambda>(i, r). (i, r @ [Watch ip])) (ndps a) else ndps a)"
    unfolding N callAll_def t by simp
  have A: "arps (SetBalancer name ip a) = arps a"
    by (simp add: SetBalancer_def doSpam_def Let_def)
  have S: "spamCh (SetBalancer name ip a) = spamCh a @ [ip]"
    by (simp add: SetBalancer_def doSpam_def Let_def)
  have I1: "ipsOf (SetBalancer name ip a) name = ipsOf a name @ [ip]"
    by (simp add: ipsOf_def [of "SetBalancer name ip a"] I AList.update_conv')
  have I2: "other \<noteq> name \<Longrightarrow> ipsOf (SetBalancer name ip a) other = ipsOf a other" for other
    by (simp add: ipsOf_def [of _ other] I AList.update_conv')
  have R1: "sint (refcnt (SetBalancer name ip a) (IP_String ip)) = sint (refcnt a (IP_String ip)) + 1"
    using inc by (simp add: R)
  show ?thesis using I1 I2 R R1 N' Z A S by blast
qed

theorem SetBalancer_effects_witness:
  "reachable 0 ex_tracked \<and> int 0 < 2 ^ 63 - 1 \<and>
   ndps (SetBalancer ''svc-c'' ex_v6 ex_tracked) = [(2, [Watch ex_v6])] \<and>
   spamCh (SetBalancer ''svc-c'' ex_v6 ex_tracked) = [ex_v6] \<and>
   refcnt (SetBalancer ''svc-c'' ex_v6 ex_tracked) (IP_String ex_v6) = 1 \<and>
   reachable (Suc 0) (SetBalancer ''svc-c'' ex_v6 ex_tracked) \<and> int (Suc 0) < 2 ^ 63 - 1 \<and>
   ndps (SetBalancer ''svc-d'' ex_v6 (SetBalancer ''svc-c'' ex_v6 ex_tracked)) = [(2, [Watch ex_v6])] \<and>
   spamCh (SetBalancer ''svc-d'' ex_v6 (SetBalancer ''svc-c'' ex_v6 ex_tracked)) = [ex_v6, ex_v6] \<and>
   refcnt (SetBalancer ''svc-d'' ex_v6 (SetBalancer ''svc-c'' ex_v6 ex_tracked)) (IP_String ex_v6) = 2"
proof -
  have r1: "reachable 0 ex_tracked" by (rule ex_tracked_reachable)
  have r2: "reachable (Suc 0) (SetBalancer ''svc-c'' ex_v6 ex_tracked)" using r1 by (rule reach_Set)
  have b1: "int 0 < 2 ^ 63 - 1" by simp
  have b2: "int (Suc 0) < 2 ^ 63 - 1" by simp
  have z: "refcnt ex_tracked (IP_String ex_v6) = 0" "ndps ex_tracked = [(2, [])]"
    "spamCh ex_tracked = []"
    by (simp_all add: refcnt_def ex_tracked_def)
  note a = SetBalancer_effects [OF r1 b1, of "''svc-c''" ex_v6]
  note b = SetBalancer_effects [OF r2 b2, of "''svc-d''" ex_v6]
  have a1: "refcnt (SetBalancer ''svc-c'' ex_v6 ex_tracked) (IP_String ex_v6) = 1"
    "ndps (SetBalancer ''svc-c'' ex_v6 ex_tracked) = [(2, [Watch ex_v6])]"
    "spamCh (SetBalancer ''svc-c'' ex_v6 ex_tracked) = [ex_v6]"
    using a z by simp_all
  have b3: "refcnt (SetBalancer ''svc-d'' ex_v6 (SetBalancer ''svc-c'' ex_v6 ex_tracked)) (IP_String ex_v6) = 2"
    "ndps (SetBalancer ''svc-d'' ex_v6 (SetBalancer ''svc-c'' ex_v6 ex_tracked)) = [(2, [Watch ex_v6])]"
    "spamCh (SetBalancer ''svc-d'' ex_v6 (SetBalancer ''svc-c'' ex_v6 ex_tracked)) = [ex_v6, ex_v6]"
    using b a1 by simp_all
  show ?thesis using r1 b1 a1 r2 b2 b3 by (intro conjI)
qed

subsection \<open>The spam loop\<close>

text \<open>
  C7. When the spam loop receives the IP \<open>x\<close>: it calls \<^verbatim>\<open>gratuitous\<close> for \<open>x\<close> at once
  if the text of \<open>x\<close> is not in its map, and makes no call otherwise; it sets the stop
  time of \<open>x\<close> to five seconds from now whether or not there was one; and it resets the
  ticker to a period of 1100 milliseconds if the map was empty, leaving it alone otherwise.
\<close>

theorem spamLoop_recv_effects:
  "snd (spamLoop_recv ip now st) = (if map_of (m st) (IP_String ip) = None then [ip] else []) \<and>
   m (fst (spamLoop_recv ip now st)) = AList.update (IP_String ip) (now + 5 * Second) (m st) \<and>
   map_of (m (fst (spamLoop_recv ip now st))) = (map_of (m st))(IP_String ip \<mapsto> now + 5 * Second) \<and>
   ticker (fst (spamLoop_recv ip now st)) = (if m st = [] then Some (1100 * Millisecond) else ticker st)"
  by (simp add: spamLoop_recv_def Let_def AList.update_conv')

theorem spamLoop_recv_effects_witness:
  "snd (spamLoop_recv ex_v4 0 spamLoop_init) = [ex_v4] \<and>
   m (fst (spamLoop_recv ex_v4 0 spamLoop_init)) = [(''10.0.0.1'', 5000000000)] \<and>
   ticker (fst (spamLoop_recv ex_v4 0 spamLoop_init)) = Some 1100000000 \<and>
   snd (spamLoop_recv ex_v4 700 \<lparr>m = [(''10.0.0.1'', 900)], ticker = Some 1100000000\<rparr>) = [] \<and>
   m (fst (spamLoop_recv ex_v4 700 \<lparr>m = [(''10.0.0.1'', 900)], ticker = Some 1100000000\<rparr>))
     = [(''10.0.0.1'', 5000000700)]"
  using spamLoop_recv_effects [of ex_v4 0 spamLoop_init]
    spamLoop_recv_effects [of ex_v4 700 "\<lparr>m = [(''10.0.0.1'', 900)], ticker = Some 1100000000\<rparr>"]
  by (simp add: spamLoop_init_def ex_simps Second_def Millisecond_def)

lemma spamLoop_range_eq:
  "spamLoop_range P now xs (mm, calls) =
     (filter (\<lambda>(k, u). k \<notin> fst ` set (filter (\<lambda>(x, T_stop). now > T_stop) xs)) mm,
      calls @ map (\<lambda>(x, T_stop). P x) (filter (\<lambda>(x, T_stop). \<not> now > T_stop) xs))"
proof (induction xs arbitrary: mm calls)
  case Nil
  then show ?case by simp
next
  case (Cons e xs)
  obtain k u where e: "e = (k, u)" by (cases e)
  show ?case
  proof (cases "now > u")
    case True
    have "filter (\<lambda>(k', u'). k' \<notin> fst ` set (filter (\<lambda>(x, T_stop). now > T_stop) xs)) (AList.delete k mm)
        = filter (\<lambda>(k', u'). k' \<notin> fst ` set (filter (\<lambda>(x, T_stop). now > T_stop) ((k, u) # xs))) mm"
      using True by (auto simp: AList.delete_eq intro!: filter_cong)
    then show ?thesis using True e Cons.IH by simp
  next
    case False
    then show ?thesis using e Cons.IH by simp
  qed
qed

lemma filter_expired_keys:
  assumes "distinct (map fst xs)"
  shows "filter (\<lambda>(k, u). k \<notin> fst ` set (filter (\<lambda>(x, T_stop). (now::int) > T_stop) xs)) xs
       = filter (\<lambda>(x, T_stop). \<not> now > T_stop) xs"
proof (rule filter_cong [OF refl])
  fix e assume e: "e \<in> set xs"
  obtain k u where ku: "e = (k, u)" by (cases e)
  have "(k \<in> fst ` set (filter (\<lambda>(x, T_stop). now > T_stop) xs)) = (now > u)"
  proof
    assume "k \<in> fst ` set (filter (\<lambda>(x, T_stop). now > T_stop) xs)"
    then obtain u' where u': "(k, u') \<in> set xs" "now > u'" by auto
    then have "u' = u" using assms e ku by (meson eq_key_imp_eq_value)
    then show "now > u" using u' by simp
  next
    assume "now > u"
    then have "(k, u) \<in> set (filter (\<lambda>(x, T_stop). now > T_stop) xs)" using e ku by simp
    then show "k \<in> fst ` set (filter (\<lambda>(x, T_stop). now > T_stop) xs)" by force
  qed
  then show "(case e of (k, u) \<Rightarrow> k \<notin> fst ` set (filter (\<lambda>(x, T_stop). now > T_stop) xs))
      = (case e of (x, T_stop) \<Rightarrow> \<not> now > T_stop)" using ku by simp
qed

text \<open>
  C8. On a tick at time \<open>now\<close>, every entry of the map whose stop time is before \<open>now\<close>
  is removed and no \<^verbatim>\<open>gratuitous\<close> call is made for it, every other entry stays and gets
  one \<^verbatim>\<open>gratuitous\<close> call, and the ticker is stopped if the map is then empty.
\<close>

theorem spamLoop_tick_effects:
  assumes "distinct (map fst (m st))"
  shows "m (fst (spamLoop_tick P now st)) = filter (\<lambda>(x, T_stop). \<not> now > T_stop) (m st) \<and>
         snd (spamLoop_tick P now st) =
           map (\<lambda>(x, T_stop). P x) (filter (\<lambda>(x, T_stop). \<not> now > T_stop) (m st)) \<and>
         ticker (fst (spamLoop_tick P now st)) =
           (if filter (\<lambda>(x, T_stop). \<not> now > T_stop) (m st) = [] then None else ticker st)"
proof -
  have "spamLoop_range P now (m st) (m st, []) =
      (filter (\<lambda>(x, T_stop). \<not> now > T_stop) (m st),
       map (\<lambda>(x, T_stop). P x) (filter (\<lambda>(x, T_stop). \<not> now > T_stop) (m st)))"
    by (simp only: spamLoop_range_eq append_Nil filter_expired_keys [OF assms])
  then show ?thesis by (simp add: spamLoop_tick_def Let_def)
qed

theorem spamLoop_tick_effects_witness:
  "distinct (map fst [(''10.0.0.1'', 100), (''2001:db8::1'', 300 :: int)]) \<and>
   spamLoop_tick ex_ParseIP 200
     \<lparr>m = [(''10.0.0.1'', 100), (''2001:db8::1'', 300)], ticker = Some 1100000000\<rparr>
   = (\<lparr>m = [(''2001:db8::1'', 300)], ticker = Some 1100000000\<rparr>, [ex_v6]) \<and>
   spamLoop_tick ex_ParseIP 400
     \<lparr>m = [(''10.0.0.1'', 100), (''2001:db8::1'', 300)], ticker = Some 1100000000\<rparr>
   = (\<lparr>m = [], ticker = None\<rparr>, [])"
proof -
  let ?st = "\<lparr>m = [(''10.0.0.1'', 100), (''2001:db8::1'', 300)], ticker = Some 1100000000\<rparr>"
  have d: "distinct (map fst (m ?st))" by simp
  have "fst (spamLoop_tick ex_ParseIP 200 ?st) = \<lparr>m = [(''2001:db8::1'', 300)], ticker = Some 1100000000\<rparr>"
    "snd (spamLoop_tick ex_ParseIP 200 ?st) = [ex_v6]"
    "fst (spamLoop_tick ex_ParseIP 400 ?st) = \<lparr>m = [], ticker = None\<rparr>"
    "snd (spamLoop_tick ex_ParseIP 400 ?st) = []"
    using spamLoop_tick_effects [OF d, of ex_ParseIP 200] spamLoop_tick_effects [OF d, of ex_ParseIP 400]
    by (simp_all add: ex_ParseIP_def)
  then show ?thesis using d by (simp add: prod_eq_iff)
qed

subsection \<open>The interface tracker\<close>









subsection \<open>Reference counts and the stored names\<close>

text \<open>What does hold in every state reachable before a count can have wrapped around: an
  IP that \<^verbatim>\<open>shouldAnnounce\<close> accepts has a positive count.\<close>

lemma shouldAnnounce_refcnt:
  assumes "reachable n a" "int n < 2 ^ 63" "shouldAnnounce x a = dropReasonNone"
  shows "0 <s refcnt a (IP_String x)"
proof -
  from assms(3) obtain name l i where nl: "(name, l) \<in> set (ips a)" and i: "i \<in> set l" "IP_Equal i x"
    by (auto simp: shouldAnnounce_def list_ex_iff split: if_splits)
  have "IP_String i = IP_String x" using i(2) by (rule IP_Equal_String)
  moreover have "IP_String i \<in> IP_String ` set l" using i(1) by (rule imageI)
  ultimately have "IP_String x \<in> set (map IP_String l)" by simp
  then have "count_list (map IP_String l) (IP_String x) \<noteq> 0" by (simp only: count_list_0_iff not_not)
  then have "0 < count_list (map IP_String l) (IP_String x)" by simp
  then have "1 \<le> int (count_list (map IP_String l) (IP_String x))" by simp
  also have "\<dots> \<le> uses a (IP_String x)" using nl by (rule uses_member)
  also have "\<dots> \<le> sint (refcnt a (IP_String x))"
    using reachable_inv [OF assms(1) assms(2)] by (simp add: registry_inv_def)
  finally show ?thesis by (simp add: word_sless_alt)
qed

text \<open>
  C1. The count of an IP is meant to be the number of times the IP is stored under the
  names. After \<^verbatim>\<open>SetBalancer("svc-a", 10.0.0.1)\<close>, \<^verbatim>\<open>SetBalancer("svc-a", 2001:db8::1)\<close>,
  \<^verbatim>\<open>SetBalancer("svc-b", 10.0.0.1)\<close> and \<^verbatim>\<open>DeleteBalancer("svc-a")\<close> it is not: the loop
  of \<^verbatim>\<open>DeleteBalancer\<close> returns at 10.0.0.1, which \<^verbatim>\<open>svc-b\<close> still uses, and 2001:db8::1
  keeps the count 1 although no name stores it any more.
\<close>

theorem refcount_not_occurrences_after_DeleteBalancer:
  "ips ex_leak = [(''svc-b'', [ex_v4])] \<and>
   refcnt ex_leak (IP_String ex_v6) = 1 \<and>
   occurrences ex_leak ex_v6 = 0"
  by (simp add: ex_leak_state refcnt_def occurrences_def ex_simps)

text \<open>
  C3. \<^verbatim>\<open>shouldAnnounce\<close> is meant to accept exactly the IPs of positive count. In the same
  state it rejects 2001:db8::1, whose count is 1; \<^verbatim>\<open>gratuitous\<close> goes by the count and
  still announces the address on every NDP responder.
\<close>

theorem shouldAnnounce_rejects_positive_refcount:
  "shouldAnnounce ex_v6 ex_leak = dropReasonAnnounceIP \<and>
   0 <s refcnt ex_leak (IP_String ex_v6) \<and>
   ndps (gratuitous ex_v6 (ex_leak\<lparr>ndps := [(2, [])]\<rparr>)) = [(2, [Gratuitous ex_v6])]"
  by (simp add: ex_leak_state refcnt_def shouldAnnounce_def gratuitous_def callAll_def ex_simps
      scmp)

end
